theory Spec2Isabelle
  imports Main
begin

section \<open>The event systems of \<^verbatim>\<open>_code/cppdmeta\<close>\<close>

text \<open>
  Two C++ programs implement the same callback registry. \<^verbatim>\<open>runtime.cpp\<close> keeps a
  \<^verbatim>\<open>std::unordered_map\<close> from event names to vectors of callbacks and checks every
  name when it is used (\<^verbatim>\<open>assert\<close>). \<^verbatim>\<open>hana.cpp\<close> keeps a \<^verbatim>\<open>boost::hana::map\<close>
  whose keys are compile-time strings, checks them with \<^verbatim>\<open>static_assert\<close>, and keeps
  beside it an \<^verbatim>\<open>unordered_map\<close> from the text of each key to a pointer to that key's
  vector, for triggering by a \<^verbatim>\<open>std::string\<close>.
\<close>

subsection \<open>Callbacks and outcomes\<close>

text \<open>
  \<^verbatim>\<open>using Callback = std::function<void()>\<close>: a callback takes nothing and returns nothing,
  so all it does is change the world outside the registry (in both \<^verbatim>\<open>main\<close> functions: it
  writes a line to \<^verbatim>\<open>std::cout\<close>). It is modelled as a function on that world, of any type
  \<open>'w\<close>. A callback of this type cannot reach the registry that stores it: re-entrant calls of
  \<^verbatim>\<open>on\<close> or \<^verbatim>\<open>trigger\<close> from inside a callback are outside the model.
\<close>

type_synonym 'w Callback = "'w \<Rightarrow> 'w"

text \<open>
  The callbacks of the two \<^verbatim>\<open>main\<close> functions,
  \<^verbatim>\<open>[]() { std::cout << "foo triggered!" << '\n'; }\<close>: the world is the list of lines written
  so far.
\<close>

definition say :: "string \<Rightarrow> string list Callback" where
  "say line out = out @ [line]"

text \<open>
  How a call on a registry ends. \<open>Returned r w\<close>: it returns, leaving the registry \<open>r\<close> and
  the world \<open>w\<close>. \<open>Aborted msg w\<close>: an \<^verbatim>\<open>assert\<close> fails (the sources do not define
  \<^verbatim>\<open>NDEBUG\<close>), the diagnostic names the asserted text \<open>msg\<close> and the process is aborted in
  the world \<open>w\<close>. \<open>Rejected msg\<close>: a \<^verbatim>\<open>static_assert\<close> fails with \<open>msg\<close>; the call is not
  part of any program that was built. \<open>Dangling\<close>: a pointer that points to no vector of the
  registry is dereferenced.
\<close>

datatype ('r, 'w) outcome =
    Returned 'r 'w
  | Aborted string 'w
  | Rejected string
  | Dangling

text \<open>
  \<^verbatim>\<open>for (auto& callback : callbacks) callback();\<close>, the loop of all three \<^verbatim>\<open>trigger\<close>
  functions.
\<close>

primrec invoke_all :: "'w Callback list \<Rightarrow> 'w \<Rightarrow> 'w" where
  "invoke_all [] w = w"
| "invoke_all (callback # callbacks) w = invoke_all callbacks (callback w)"

text \<open>
  \<^verbatim>\<open>std::unordered_map::insert\<close>: a key that is already present keeps its value.
\<close>

definition um_insert :: "('k \<rightharpoonup> 'v) \<Rightarrow> 'k \<Rightarrow> 'v \<Rightarrow> ('k \<rightharpoonup> 'v)" where
  "um_insert m k v = (case m k of None \<Rightarrow> m(k \<mapsto> v) | Some old \<Rightarrow> m)"

text \<open>
  A call in the body of a client such as \<^verbatim>\<open>main\<close>, on an event named by the string \<open>e\<close>.
  \<open>On e callback\<close> and \<open>Trigger e\<close> are \<^verbatim>\<open>events.on(e, callback)\<close> and \<^verbatim>\<open>events.trigger(e)\<close>
  where, in \<^verbatim>\<open>hana.cpp\<close>, \<open>e\<close> is the compile-time string (\<^verbatim>\<open>"foo"_s\<close>) and, in
  \<^verbatim>\<open>runtime.cpp\<close>, \<open>e\<close> is the \<^verbatim>\<open>std::string\<close> the function receives. \<open>Trigger_string s\<close> is
  \<^verbatim>\<open>events.trigger(s)\<close> with a \<^verbatim>\<open>std::string\<close> \<open>s\<close> (\<^verbatim>\<open>"baz"s\<close>, \<^verbatim>\<open>foos\<close>), which in
  \<^verbatim>\<open>hana.cpp\<close> selects the overload \<^verbatim>\<open>trigger(std::string const&)\<close> and in \<^verbatim>\<open>runtime.cpp\<close>
  is the only \<^verbatim>\<open>trigger\<close> there is.
\<close>

datatype 'w call =
    On string "'w Callback"
  | Trigger string
  | Trigger_string string



subsection \<open>\<^verbatim>\<open>runtime.cpp\<close>: names checked when used\<close>

text \<open>The field \<open>rmap\<close> is the member \<^verbatim>\<open>map_\<close>.\<close>

record 'w event_system =
  rmap :: "string \<rightharpoonup> 'w Callback list"

text \<open>
  The constructor: \<^verbatim>\<open>for (auto const& event : events) map_.insert({event, {}});\<close>
\<close>

primrec insert_events :: "string list \<Rightarrow> (string \<rightharpoonup> 'w Callback list) \<Rightarrow> (string \<rightharpoonup> 'w Callback list)" where
  "insert_events [] m = m"
| "insert_events (event # events) m = insert_events events (um_insert m event [])"

definition new_event_system :: "string list \<Rightarrow> 'w event_system" where
  "new_event_system events = \<lparr>rmap = insert_events events Map.empty\<rparr>"

definition on :: "'w event_system \<Rightarrow> string \<Rightarrow> 'w Callback \<Rightarrow> 'w \<Rightarrow> ('w event_system, 'w) outcome" where
  "on r event callback w =
     (case rmap r event of
        None \<Rightarrow> Aborted ''trying to add a callback to an unknown event'' w
      | Some callbacks \<Rightarrow> Returned (r\<lparr>rmap := (rmap r)(event \<mapsto> callbacks @ [callback])\<rparr>) w)"

definition trigger :: "'w event_system \<Rightarrow> string \<Rightarrow> 'w \<Rightarrow> ('w event_system, 'w) outcome" where
  "trigger r event w =
     (case rmap r event of
        None \<Rightarrow> Aborted ''trying to trigger an unknown event'' w
      | Some callbacks \<Rightarrow> Returned r (invoke_all callbacks w))"

primrec exec :: "'w event_system \<Rightarrow> 'w call \<Rightarrow> 'w \<Rightarrow> ('w event_system, 'w) outcome" where
  "exec r (On e callback) w = on r e callback w"
| "exec r (Trigger e) w = trigger r e w"
| "exec r (Trigger_string s) w = trigger r s w"

text \<open>A sequence of calls, one statement after the other; nothing runs after an abort.\<close>

primrec run :: "'w event_system \<Rightarrow> 'w call list \<Rightarrow> 'w \<Rightarrow> ('w event_system, 'w) outcome" where
  "run r [] w = Returned r w"
| "run r (c # cs) w =
     (case exec r c w of
        Returned r' w' \<Rightarrow> run r' cs w'
      | Aborted msg w' \<Rightarrow> Aborted msg w'
      | Rejected msg \<Rightarrow> Rejected msg
      | Dangling \<Rightarrow> Dangling)"

subsection \<open>\<^verbatim>\<open>hana.cpp\<close>: names checked when the program is built\<close>

text \<open>
  \<^verbatim>\<open>hana::map<hana::pair<Events, std::vector<Callback>>...> map_\<close> is a tuple of pairs, one
  per event of the parameter pack, in the pack's order; the keys are compile-time strings and
  never change (field \<open>hmap\<close>). \<^verbatim>\<open>dynamic_\<close> (field \<open>dynamic\<close>) maps text to
  \<^verbatim>\<open>std::vector<Callback>* const\<close>; a pointer to the vector of the \<open>i\<close>-th pair is modelled
  as the index \<open>i\<close>. The registry is built in place by \<^verbatim>\<open>make_event_system\<close> and is not
  copied afterwards, so these pointers stay pointers into its own \<^verbatim>\<open>map_\<close>.
\<close>

record 'w hana_event_system =
  hmap :: "(string \<times> 'w Callback list) list"
  dynamic :: "string \<rightharpoonup> nat"

text \<open>
  \<^verbatim>\<open>map_[e]\<close> (\<^verbatim>\<open>hana::at_key\<close>) finds the pair of the key \<open>e\<close>: its position among the
  keys, \<open>None\<close> when \<^verbatim>\<open>hana::contains(map_, e)\<close> is false.
\<close>

primrec at_key :: "string list \<Rightarrow> string \<Rightarrow> nat option" where
  "at_key [] e = None"
| "at_key (k # ks) e = (if e = k then Some 0 else map_option Suc (at_key ks e))"

definition keys :: "'w hana_event_system \<Rightarrow> string list" where
  "keys r = map fst (hmap r)"

text \<open>
  \<^verbatim>\<open>event.c_str()\<close> is a \<^verbatim>\<open>char const*\<close>, and the \<^verbatim>\<open>std::string\<close> made from it ends before
  the first NUL character: the text of a key is the key up to its first NUL. A name of type
  \<^verbatim>\<open>std::string\<close>, and a compile-time string, may contain NUL characters.
\<close>

definition c_str :: "string \<Rightarrow> string" where
  "c_str s = takeWhile (\<lambda>c. c \<noteq> CHR 0x00) s"

definition nul_free :: "string \<Rightarrow> bool" where
  "nul_free s \<longleftrightarrow> CHR 0x00 \<notin> set s"

text \<open>
  The constructor:
  \<^verbatim>\<open>hana::for_each(hana::keys(map_), [&](auto event) {
      dynamic_.insert({event.c_str(), &map_[event]}); });\<close>
  The key inserted is the text of \<open>event\<close>, not \<open>event\<close>. Every \<open>event\<close> of the loop is a
  key, so \<^verbatim>\<open>&map_[event]\<close> exists; the model leaves \<^verbatim>\<open>dynamic_\<close> as it is in the other case,
  which does not occur.
\<close>

primrec index_events :: "string list \<Rightarrow> string list \<Rightarrow> (string \<rightharpoonup> nat) \<Rightarrow> (string \<rightharpoonup> nat)" where
  "index_events ks [] d = d"
| "index_events ks (event # events) d =
     index_events ks events
       (case at_key ks event of None \<Rightarrow> d | Some p \<Rightarrow> um_insert d (c_str event) p)"

definition make_event_system :: "string list \<Rightarrow> 'w hana_event_system" where
  "make_event_system events =
     \<lparr>hmap = map (\<lambda>e. (e, [])) events,
      dynamic = index_events events events Map.empty\<rparr>"

definition hana_on :: "'w hana_event_system \<Rightarrow> string \<Rightarrow> 'w Callback \<Rightarrow> 'w \<Rightarrow> ('w hana_event_system, 'w) outcome" where
  "hana_on r e callback w =
     (case at_key (keys r) e of
        None \<Rightarrow> Rejected ''trying to add a callback to an unknown event''
      | Some i \<Rightarrow>
          Returned (r\<lparr>hmap := (hmap r)[i := (e, snd (hmap r ! i) @ [callback])]\<rparr>) w)"

definition hana_trigger :: "'w hana_event_system \<Rightarrow> string \<Rightarrow> 'w \<Rightarrow> ('w hana_event_system, 'w) outcome" where
  "hana_trigger r e w =
     (case at_key (keys r) e of
        None \<Rightarrow> Rejected ''trying to trigger an unknown event''
      | Some i \<Rightarrow> Returned r (invoke_all (snd (hmap r ! i)) w))"

definition hana_trigger_string :: "'w hana_event_system \<Rightarrow> string \<Rightarrow> 'w \<Rightarrow> ('w hana_event_system, 'w) outcome" where
  "hana_trigger_string r event w =
     (case dynamic r event of
        None \<Rightarrow> Aborted ''trying to trigger an unknown event'' w
      | Some p \<Rightarrow>
          if p < length (hmap r) then Returned r (invoke_all (snd (hmap r ! p)) w)
          else Dangling)"

primrec hana_exec :: "'w hana_event_system \<Rightarrow> 'w call \<Rightarrow> 'w \<Rightarrow> ('w hana_event_system, 'w) outcome" where
  "hana_exec r (On e callback) w = hana_on r e callback w"
| "hana_exec r (Trigger e) w = hana_trigger r e w"
| "hana_exec r (Trigger_string s) w = hana_trigger_string r s w"

primrec hana_run :: "'w hana_event_system \<Rightarrow> 'w call list \<Rightarrow> 'w \<Rightarrow> ('w hana_event_system, 'w) outcome" where
  "hana_run r [] w = Returned r w"
| "hana_run r (c # cs) w =
     (case hana_exec r c w of
        Returned r' w' \<Rightarrow> hana_run r' cs w'
      | Aborted msg w' \<Rightarrow> Aborted msg w'
      | Rejected msg \<Rightarrow> Rejected msg
      | Dangling \<Rightarrow> Dangling)"

text \<open>
  What the compiler checks of a call on a registry with the events \<open>events\<close>: the
  \<^verbatim>\<open>static_assert(is_known_event, ...)\<close> of the instantiated \<^verbatim>\<open>on\<close> or \<^verbatim>\<open>trigger\<close>
  template, where \<^verbatim>\<open>is_known_event = hana::contains(map_, e)\<close> depends on the types of
  \<^verbatim>\<open>map_\<close> and \<^verbatim>\<open>e\<close> only. The overload for \<^verbatim>\<open>std::string\<close> has no such check. A program
  is built when every call of it passes.
\<close>

primrec static_assert_ok :: "string list \<Rightarrow> 'w call \<Rightarrow> bool" where
  "static_assert_ok events (On e callback) = (e \<in> set events)"
| "static_assert_ok events (Trigger e) = (e \<in> set events)"
| "static_assert_ok events (Trigger_string s) = True"

definition builds :: "string list \<Rightarrow> 'w call list \<Rightarrow> bool" where
  "builds events cs = list_all (static_assert_ok events) cs"

text \<open>
  The vector \<^verbatim>\<open>map_[e]\<close> of a key \<open>e\<close> of the hana registry, and the state of \<^verbatim>\<open>dynamic_\<close>
  that the constructor leaves: a text is mapped to the pointer to the vector of the first key
  that has this text.
\<close>

definition callbacks_of :: "'w hana_event_system \<Rightarrow> string \<rightharpoonup> 'w Callback list" where
  "callbacks_of r e = map_option (\<lambda>i. snd (hmap r ! i)) (at_key (keys r) e)"

definition linked :: "'w hana_event_system \<Rightarrow> bool" where
  "linked r \<longleftrightarrow> dynamic r = at_key (map c_str (keys r))"

section \<open>Properties\<close>

subsection \<open>The runtime registry\<close>

lemma um_insert_present: "m k = Some v \<Longrightarrow> um_insert m k v' = m"
  by (simp add: um_insert_def)

lemma dom_um_insert: "dom (um_insert m k v) = insert k (dom m)"
  by (auto simp: um_insert_def split: option.splits)

lemma dom_insert_events: "dom (insert_events events m) = dom m \<union> set events"
  by (induction events arbitrary: m) (auto simp: dom_um_insert)

lemma insert_events_apply:
  "insert_events events m e =
     (case m e of Some v \<Rightarrow> Some v | None \<Rightarrow> if e \<in> set events then Some [] else None)"
proof (induction events arbitrary: m)
  case Nil
  show ?case by (simp split: option.splits)
next
  case (Cons a events)
  show ?case
    by (simp add: Cons.IH um_insert_def split: option.splits)
qed

lemma insert_events_append:
  "insert_events (xs @ ys) m = insert_events ys (insert_events xs m)"
  by (induction xs arbitrary: m) simp_all

lemma map_new_event_system:
  "rmap (new_event_system events) e = (if e \<in> set events then Some [] else None)"
  by (simp add: new_event_system_def insert_events_apply)

lemma invoke_all_say: "invoke_all (map say ls) out = out @ ls"
  by (induction ls arbitrary: out) (simp_all add: say_def)

lemma on_known:
  "rmap r e = Some cbs \<Longrightarrow> on r e c w = Returned (r\<lparr>rmap := (rmap r)(e \<mapsto> cbs @ [c])\<rparr>) w"
  by (simp add: on_def)

lemma on_unknown:
  "rmap r e = None \<Longrightarrow> on r e c w = Aborted ''trying to add a callback to an unknown event'' w"
  by (simp add: on_def)

lemma trigger_known:
  "rmap r e = Some cbs \<Longrightarrow> trigger r e w = Returned r (invoke_all cbs w)"
  by (simp add: trigger_def)

lemma trigger_unknown:
  "rmap r e = None \<Longrightarrow> trigger r e w = Aborted ''trying to trigger an unknown event'' w"
  by (simp add: trigger_def)

lemma exec_dom: "exec r c w = Returned r' w' \<Longrightarrow> dom (rmap r') = dom (rmap r)"
  by (cases c) (auto simp: on_def trigger_def split: option.splits if_splits)

lemma run_dom: "run r cs w = Returned r' w' \<Longrightarrow> dom (rmap r') = dom (rmap r)"
proof (induction cs arbitrary: r w)
  case Nil
  then show ?case by simp
next
  case (Cons c cs)
  from Cons.prems obtain r1 w1 where
    step: "exec r c w = Returned r1 w1" and rest: "run r1 cs w1 = Returned r' w'"
    by (auto split: outcome.splits)
  from Cons.IH [OF rest] exec_dom [OF step] show ?case by simp
qed

lemma run_ons:
  "rmap r e = Some cbs \<Longrightarrow>
   run r (map (On e) cs) w = Returned (r\<lparr>rmap := (rmap r)(e \<mapsto> cbs @ cs)\<rparr>) w"
proof (induction cs arbitrary: r cbs)
  case Nil
  then have "(rmap r)(e \<mapsto> cbs) = rmap r" by (simp add: fun_upd_idem)
  then show ?case by simp
next
  case (Cons c cs)
  let ?r = "r\<lparr>rmap := (rmap r)(e \<mapsto> cbs @ [c])\<rparr>"
  have "rmap ?r e = Some (cbs @ [c])" by simp
  from Cons.IH [OF this]
  have "run ?r (map (On e) cs) w = Returned (?r\<lparr>rmap := (rmap ?r)(e \<mapsto> (cbs @ [c]) @ cs)\<rparr>) w" .
  moreover have "?r\<lparr>rmap := (rmap ?r)(e \<mapsto> (cbs @ [c]) @ cs)\<rparr> = r\<lparr>rmap := (rmap r)(e \<mapsto> cbs @ c # cs)\<rparr>"
    by simp
  ultimately show ?case
    using Cons.prems by (simp add: on_known del: fun_upd_apply)
qed

lemma insert_events_duplicate:
  assumes "e \<in> set xs"
  shows "insert_events (xs @ e # ys) m = insert_events (xs @ ys) m"
proof -
  from assms obtain v where "insert_events xs m e = Some v"
    by (cases "m e") (simp_all add: insert_events_apply)
  then have "um_insert (insert_events xs m) e [] = insert_events xs m"
    by (rule um_insert_present)
  then show ?thesis
    by (simp add: insert_events_append)
qed

lemma reachable_runtime:
  "run (new_event_system events) cs w = Returned r w' \<Longrightarrow> dom (rmap r) = set events"
  by (drule run_dom) (simp add: new_event_system_def dom_insert_events)

subsection \<open>The hana registry\<close>

lemma at_key_Some: "at_key ks e = Some i \<Longrightarrow> i < length ks \<and> ks ! i = e"
  by (induction ks arbitrary: i) (auto split: if_splits)

lemma at_key_None: "at_key ks e = None \<longleftrightarrow> e \<notin> set ks"
  by (induction ks) auto

lemma at_key_member: "e \<in> set ks \<Longrightarrow> \<exists>i. at_key ks e = Some i"
  using at_key_None [of ks e] by (cases "at_key ks e") auto

lemma find_satisfies: "find P xs = Some x \<Longrightarrow> P x \<and> x \<in> set xs"
  by (induction xs) (auto split: if_splits)

lemma at_key_map:
  "at_key (map f ks) s =
     (case find (\<lambda>e. f e = s) ks of None \<Rightarrow> None | Some e \<Rightarrow> at_key ks e)"
proof (induction ks)
  case Nil
  show ?case by simp
next
  case (Cons k ks)
  show ?case
  proof (cases "f k = s")
    case True
    then show ?thesis by auto
  next
    case False
    show ?thesis
    proof (cases "find (\<lambda>e. f e = s) ks")
      case None
      with False Cons.IH show ?thesis by auto
    next
      case (Some e)
      from find_satisfies [OF Some] False have "e \<noteq> k" by auto
      with False Some Cons.IH show ?thesis by auto
    qed
  qed
qed

lemma index_events_apply:
  "set events \<subseteq> set ks \<Longrightarrow>
   index_events ks events d s =
     (case d s of
        Some p \<Rightarrow> Some p
      | None \<Rightarrow> (case find (\<lambda>e. c_str e = s) events of None \<Rightarrow> None | Some e \<Rightarrow> at_key ks e))"
proof (induction events arbitrary: d)
  case Nil
  show ?case by (simp split: option.splits)
next
  case (Cons a events)
  from Cons.prems have "a \<in> set ks" and sub: "set events \<subseteq> set ks" by simp_all
  then obtain p where p: "at_key ks a = Some p" using at_key_member by blast
  show ?case
    by (simp add: Cons.IH [OF sub] p um_insert_def split: option.splits)
qed

lemma c_str_nul_free: "nul_free s \<Longrightarrow> c_str s = s"
  by (auto simp: c_str_def nul_free_def takeWhile_eq_all_conv)

lemma map_c_str_nul_free: "list_all nul_free ks \<Longrightarrow> map c_str ks = ks"
  by (induction ks) (simp_all add: c_str_nul_free)

lemma keys_make: "keys (make_event_system events) = events"
  by (simp add: keys_def make_event_system_def comp_def)

lemma dynamic_make:
  "dynamic (make_event_system events) = at_key (map c_str events)"
proof
  fix s
  show "dynamic (make_event_system events) s = at_key (map c_str events) s"
    by (simp add: make_event_system_def index_events_apply at_key_map)
qed

lemma linked_make: "linked (make_event_system events)"
  by (simp add: linked_def keys_make dynamic_make)

lemma callbacks_of_make:
  "callbacks_of (make_event_system events) e = (if e \<in> set events then Some [] else None)"
proof (cases "at_key events e")
  case None
  then show ?thesis by (simp add: callbacks_of_def keys_make at_key_None)
next
  case (Some i)
  then have "i < length events" "e \<in> set events"
    using at_key_Some [OF Some] at_key_None [of events e] by auto
  then show ?thesis
    using Some by (simp add: callbacks_of_def keys_make) (simp add: make_event_system_def)
qed

lemma hana_on_known:
  assumes "callbacks_of r e = Some cbs"
  shows "\<exists>r'. hana_on r e c w = Returned r' w \<and> keys r' = keys r \<and> dynamic r' = dynamic r
           \<and> callbacks_of r' = (callbacks_of r)(e \<mapsto> cbs @ [c])"
proof -
  from assms obtain i where i: "at_key (keys r) e = Some i" and cbs: "cbs = snd (hmap r ! i)"
    by (auto simp: callbacks_of_def)
  from at_key_Some [OF i] have len: "i < length (hmap r)" and ki: "keys r ! i = e"
    by (simp_all add: keys_def)
  let ?r = "r\<lparr>hmap := (hmap r)[i := (e, snd (hmap r ! i) @ [c])]\<rparr>"
  have k: "keys ?r = keys r"
    using len ki by (simp add: keys_def map_update list_update_same_conv)
  have "callbacks_of ?r x = ((callbacks_of r)(e \<mapsto> cbs @ [c])) x" for x
  proof (cases "at_key (keys r) x")
    case None
    then have "x \<noteq> e" using i by auto
    then show ?thesis using None by (simp add: callbacks_of_def k)
  next
    case (Some j)
    from at_key_Some [OF Some] have j: "j < length (hmap r)" "keys r ! j = x"
      by (simp_all add: keys_def)
    show ?thesis
    proof (cases "x = e")
      case True
      then have "j = i" using Some i by simp
      then show ?thesis using True Some len cbs by (simp add: callbacks_of_def k)
    next
      case False
      then have "j \<noteq> i" using j ki by auto
      then show ?thesis using False Some by (simp add: callbacks_of_def k)
    qed
  qed
  then have "callbacks_of ?r = (callbacks_of r)(e \<mapsto> cbs @ [c])" by (rule ext)
  moreover have "hana_on r e c w = Returned ?r w" by (simp add: hana_on_def i)
  ultimately show ?thesis using k by auto
qed

lemma hana_on_unknown:
  "callbacks_of r e = None \<Longrightarrow>
   hana_on r e c w = Rejected ''trying to add a callback to an unknown event''"
  by (simp add: hana_on_def callbacks_of_def)

lemma hana_trigger_known:
  "callbacks_of r e = Some cbs \<Longrightarrow> hana_trigger r e w = Returned r (invoke_all cbs w)"
  by (auto simp: hana_trigger_def callbacks_of_def)

lemma hana_trigger_string_known:
  assumes "linked r" and "list_all nul_free (keys r)" and "callbacks_of r e = Some cbs"
  shows "hana_trigger_string r e w = Returned r (invoke_all cbs w)"
proof -
  from assms(3) obtain i where i: "at_key (keys r) e = Some i" and cbs: "cbs = snd (hmap r ! i)"
    by (auto simp: callbacks_of_def)
  from at_key_Some [OF i] have "i < length (hmap r)" by (simp add: keys_def)
  moreover from assms(1,2) i have "dynamic r e = Some i"
    by (simp add: linked_def map_c_str_nul_free)
  ultimately show ?thesis by (simp add: hana_trigger_string_def cbs)
qed

lemma hana_trigger_string_unknown:
  assumes "linked r" and "s \<notin> c_str ` set (keys r)"
  shows "hana_trigger_string r s w = Aborted ''trying to trigger an unknown event'' w"
proof -
  from assms(2) have "s \<notin> set (map c_str (keys r))" by simp
  then have "at_key (map c_str (keys r)) s = None" by (rule at_key_None [THEN iffD2])
  with assms(1) have "dynamic r s = None" by (simp add: linked_def)
  then show ?thesis by (simp add: hana_trigger_string_def)
qed

lemma dom_callbacks_of: "dom (callbacks_of r) = set (keys r)"
  using at_key_None [of "keys r"] by (auto simp: callbacks_of_def dom_def)

lemma hana_exec_Returned:
  assumes "hana_exec r c w = Returned r' w'"
  shows "keys r' = keys r \<and> dynamic r' = dynamic r"
proof (cases c)
  case (On e cb)
  with assms have ret: "hana_on r e cb w = Returned r' w'" by simp
  then obtain cbs where "callbacks_of r e = Some cbs"
    by (cases "callbacks_of r e") (auto simp: hana_on_unknown)
  from hana_on_known [OF this, of cb w] ret show ?thesis by auto
next
  case (Trigger e)
  with assms show ?thesis by (auto simp: hana_trigger_def split: option.splits)
next
  case (Trigger_string s)
  with assms show ?thesis
    by (auto simp: hana_trigger_string_def split: option.splits if_splits)
qed

lemma hana_run_Returned:
  "hana_run r cs w = Returned r' w' \<Longrightarrow> keys r' = keys r \<and> dynamic r' = dynamic r"
proof (induction cs arbitrary: r w)
  case Nil
  then show ?case by simp
next
  case (Cons c cs)
  from Cons.prems obtain r1 w1 where
    step: "hana_exec r c w = Returned r1 w1" and rest: "hana_run r1 cs w1 = Returned r' w'"
    by (auto split: outcome.splits)
  from Cons.IH [OF rest] hana_exec_Returned [OF step] show ?case by simp
qed

lemma reachable_hana:
  assumes "hana_run (make_event_system events) cs w = Returned (r :: 'w hana_event_system) w'"
  shows "keys r = events" and "linked r"
proof -
  let ?m = "make_event_system events :: 'w hana_event_system"
  from hana_run_Returned [OF assms]
  have k: "keys r = keys ?m" and d: "dynamic r = dynamic ?m"
    by simp_all
  from k show "keys r = events" by (simp add: keys_make)
  have "linked ?m" by (rule linked_make)
  with k d show "linked r" by (simp add: linked_def)
qed

lemma hana_run_ons:
  "callbacks_of r e = Some cbs \<Longrightarrow>
   \<exists>r'. hana_run r (map (On e) cs) w = Returned r' w \<and> keys r' = keys r
     \<and> dynamic r' = dynamic r \<and> callbacks_of r' = (callbacks_of r)(e \<mapsto> cbs @ cs)"
proof (induction cs arbitrary: r cbs)
  case Nil
  then have "(callbacks_of r)(e \<mapsto> cbs) = callbacks_of r" by (simp add: fun_upd_idem)
  then show ?case by simp
next
  case (Cons c cs)
  from hana_on_known [OF Cons.prems, of c w] obtain r1 where
    r1: "hana_on r e c w = Returned r1 w" "keys r1 = keys r" "dynamic r1 = dynamic r"
      "callbacks_of r1 = (callbacks_of r)(e \<mapsto> cbs @ [c])"
    by auto
  then have "callbacks_of r1 e = Some (cbs @ [c])" by simp
  from Cons.IH [OF this] obtain r' where
    "hana_run r1 (map (On e) cs) w = Returned r' w" "keys r' = keys r1"
    "dynamic r' = dynamic r1" "callbacks_of r' = (callbacks_of r1)(e \<mapsto> (cbs @ [c]) @ cs)"
    by blast
  with r1 show ?case by (simp add: fun_eq_iff)
qed

lemma rmap_reachable:
  assumes "run (new_event_system events) cs w = Returned r w'"
  shows "rmap r e = None \<longleftrightarrow> e \<notin> set events"
proof -
  have "e \<in> dom (rmap r) \<longleftrightarrow> e \<in> set events"
    using reachable_runtime [OF assms] by simp
  then show ?thesis by (auto simp: domIff)
qed

lemma callbacks_of_reachable:
  assumes "hana_run (make_event_system events) cs w = Returned r w'"
  shows "callbacks_of r e = None \<longleftrightarrow> e \<notin> set events"
proof -
  have "e \<in> dom (callbacks_of r) \<longleftrightarrow> e \<in> set events"
    using reachable_hana(1) [OF assms] by (simp add: dom_callbacks_of)
  then show ?thesis by (auto simp: domIff)
qed

lemma dom_at_key: "dom (at_key ks) = set ks"
proof -
  have "e \<in> dom (at_key ks) \<longleftrightarrow> e \<in> set ks" for e
    by (simp add: domIff at_key_None)
  then show ?thesis by blast
qed

lemma hana_run_not_Rejected:
  "builds (keys r) cs \<Longrightarrow> hana_run r cs w \<noteq> Rejected msg"
proof (induction cs arbitrary: r w)
  case Nil
  show ?case by simp
next
  case (Cons c cs)
  from Cons.prems have ok: "static_assert_ok (keys r) c" and rest: "builds (keys r) cs"
    by (simp_all add: builds_def)
  have step: "hana_exec r c w \<noteq> Rejected msg"
  proof (cases c)
    case (On e cb)
    with ok have "e \<in> dom (callbacks_of r)" by (simp add: dom_callbacks_of)
    then obtain cbs where "callbacks_of r e = Some cbs" by auto
    from hana_on_known [OF this, of cb w] On show ?thesis by auto
  next
    case (Trigger e)
    with ok have "e \<in> dom (callbacks_of r)" by (simp add: dom_callbacks_of)
    then obtain cbs where "callbacks_of r e = Some cbs" by auto
    from hana_trigger_known [OF this, of w] Trigger show ?thesis by simp
  next
    case (Trigger_string s)
    then show ?thesis by (simp add: hana_trigger_string_def split: option.splits)
  qed
  show ?case
  proof (cases "hana_exec r c w")
    case (Returned r1 w1)
    from hana_exec_Returned [OF Returned] rest have "builds (keys r1) cs" by simp
    from Cons.IH [OF this] Returned show ?thesis by simp
  next
    case (Aborted m w1)
    then show ?thesis by simp
  next
    case (Rejected m)
    with step show ?thesis by simp
  next
    case Dangling
    then show ?thesis by simp
  qed
qed

subsection \<open>The two registries side by side\<close>



subsection \<open>The two \<^verbatim>\<open>main\<close> functions\<close>

text \<open>
  The registrations and the first two triggers of \<^verbatim>\<open>main\<close> in \<^verbatim>\<open>runtime.cpp\<close>, run on
  both registries: three lines are written.
\<close>

lemma main_runtime:
  "\<exists>r. run (new_event_system [''foo'', ''bar'', ''baz''])
     [On ''foo'' (say ''foo triggered!''), On ''foo'' (say ''foo again!''),
      On ''bar'' (say ''bar triggered!''), On ''baz'' (say ''baz triggered!''),
      Trigger ''foo'', Trigger ''baz''] []
   = Returned r [''foo triggered!'', ''foo again!'', ''baz triggered!'']"
  by (simp add: new_event_system_def um_insert_def on_def trigger_def say_def)

lemma main_hana:
  "\<exists>r. hana_run (make_event_system [''foo'', ''bar'', ''baz''])
     [On ''foo'' (say ''foo triggered!''), On ''foo'' (say ''foo again!''),
      On ''bar'' (say ''bar triggered!''), On ''baz'' (say ''baz triggered!''),
      Trigger ''foo'', Trigger ''baz''] []
   = Returned r [''foo triggered!'', ''foo again!'', ''baz triggered!'']"
  by (simp add: make_event_system_def um_insert_def hana_on_def hana_trigger_def keys_def say_def)

lemma main_runtime_foo:
  "\<exists>r. run (new_event_system [''foo'', ''bar'', ''baz''])
     [On ''foo'' (say ''foo triggered!''), On ''foo'' (say ''foo again!''),
      On ''bar'' (say ''bar triggered!''), On ''baz'' (say ''baz triggered!''),
      Trigger ''foo'', Trigger ''baz''] []
   = Returned r [''foo triggered!'', ''foo again!'', ''baz triggered!'']
   \<and> rmap r ''foo'' = Some [say ''foo triggered!'', say ''foo again!'']"
  by (simp add: new_event_system_def um_insert_def on_def trigger_def say_def)

lemma main_hana_foo:
  "\<exists>r. hana_run (make_event_system [''foo'', ''bar'', ''baz''])
     [On ''foo'' (say ''foo triggered!''), On ''foo'' (say ''foo again!''),
      On ''bar'' (say ''bar triggered!''), On ''baz'' (say ''baz triggered!''),
      Trigger ''foo'', Trigger ''baz''] []
   = Returned r [''foo triggered!'', ''foo again!'', ''baz triggered!'']
   \<and> callbacks_of r ''foo'' = Some [say ''foo triggered!'', say ''foo again!'']"
  by (simp add: make_event_system_def um_insert_def hana_on_def hana_trigger_def keys_def
      callbacks_of_def say_def)

subsection \<open>Unknown names and the text of a key\<close>

lemma runtime_unknown_event_aborts:
  assumes "x \<notin> set events" and "run (new_event_system events) cs w0 = Returned r w"
  shows "trigger r x w = Aborted ''trying to trigger an unknown event'' w
       \<and> on r x callback w = Aborted ''trying to add a callback to an unknown event'' w"
proof -
  from assms(1) rmap_reachable [OF assms(2)] have "rmap r x = None" by simp
  then show ?thesis by (simp add: trigger_unknown on_unknown)
qed

lemma hana_unknown_text_aborts:
  assumes "x \<notin> c_str ` set events"
    and "hana_run (make_event_system events) cs w0 = Returned hr hw"
  shows "hana_trigger_string hr x hw = Aborted ''trying to trigger an unknown event'' hw"
proof -
  have "keys hr = events" and "linked hr" using assms(2) by (rule reachable_hana)+
  with assms(1) show ?thesis by (simp add: hana_trigger_string_unknown)
qed

lemma hana_known_text_runs:
  assumes "list_all nul_free events" and "e \<in> set events"
    and "hana_run (make_event_system events) cs w0 = Returned r w1"
  shows "hana_trigger_string r e w = hana_trigger r e w"
proof -
  have k: "keys r = events" and l: "linked r" using assms(3) by (rule reachable_hana)+
  from assms(2) callbacks_of_reachable [OF assms(3), of e]
  obtain cbs where cbs: "callbacks_of r e = Some cbs" by auto
  from assms(1) k have "list_all nul_free (keys r)" by simp
  from hana_trigger_string_known [OF l this cbs, of w] hana_trigger_known [OF cbs, of w]
  show ?thesis by simp
qed

lemma main_hana_string:
  "\<exists>r. hana_run (make_event_system [''foo'', ''bar'', ''baz''])
     [On ''foo'' (say ''foo triggered!''), On ''foo'' (say ''foo again!''),
      On ''bar'' (say ''bar triggered!''), On ''baz'' (say ''baz triggered!''),
      Trigger ''foo'', Trigger ''baz''] []
   = Returned r [''foo triggered!'', ''foo again!'', ''baz triggered!'']
   \<and> callbacks_of r ''foo'' = Some [say ''foo triggered!'', say ''foo again!'']
   \<and> hana_trigger_string r ''foo'' [] = Returned r [''foo triggered!'', ''foo again!'']"
proof -
  from main_hana_foo obtain r where
    r: "hana_run (make_event_system [''foo'', ''bar'', ''baz''])
     [On ''foo'' (say ''foo triggered!''), On ''foo'' (say ''foo again!''),
      On ''bar'' (say ''bar triggered!''), On ''baz'' (say ''baz triggered!''),
      Trigger ''foo'', Trigger ''baz''] []
   = Returned r [''foo triggered!'', ''foo again!'', ''baz triggered!'']"
    and cb: "callbacks_of r ''foo'' = Some [say ''foo triggered!'', say ''foo again!'']"
    by blast
  have k: "keys r = [''foo'', ''bar'', ''baz'']" and l: "linked r" using r by (rule reachable_hana)+
  from k have "list_all nul_free (keys r)" by (simp add: nul_free_def)
  from hana_trigger_string_known [OF l this cb, of "[]"]
  have "hana_trigger_string r ''foo'' [] = Returned r [''foo triggered!'', ''foo again!'']"
    by (simp add: say_def)
  with r cb show ?thesis by blast
qed

section \<open>The claims\<close>

text \<open>
  Claim C1. In a registry built from the events \<open>events\<close>, for an event \<open>e\<close> of them:
  after \<^verbatim>\<open>on(e, c1)\<close>, ..., \<^verbatim>\<open>on(e, cn)\<close>, which all return, \<^verbatim>\<open>trigger(e)\<close> returns
  and has called \<open>c1\<close>, ..., \<open>cn\<close> in this order, once each, before it returns: the world
  it leaves is \<open>cn (... (c1 w'))\<close>. This holds for \<^verbatim>\<open>trigger\<close> of \<^verbatim>\<open>runtime.cpp\<close> and for
  \<^verbatim>\<open>trigger(Event)\<close> of \<^verbatim>\<open>hana.cpp\<close>. For callbacks that each write a line, the lines written
  are those of \<open>c1\<close>, ..., \<open>cn\<close>, in this order, after what was there.
\<close>

theorem trigger_in_registration_order:
  assumes "e \<in> set events"
  shows "(\<exists>r. run (new_event_system events) (map (On e) callbacks) w = Returned r w
            \<and> trigger r e w' = Returned r (invoke_all callbacks w'))
       \<and> (\<exists>r. hana_run (make_event_system events) (map (On e) callbacks) w = Returned r w
            \<and> hana_trigger r e w' = Returned r (invoke_all callbacks w'))
       \<and> invoke_all (map say ls) out = out @ ls"
proof (intro conjI)
  let ?r = "new_event_system events :: 'a event_system"
  have "rmap ?r e = Some []" using assms by (simp add: map_new_event_system)
  from run_ons [OF this, of callbacks w]
  show "\<exists>r. run ?r (map (On e) callbacks) w = Returned r w
            \<and> trigger r e w' = Returned r (invoke_all callbacks w')"
    by (simp add: trigger_def)
next
  let ?r = "make_event_system events :: 'a hana_event_system"
  have "callbacks_of ?r e = Some []" using assms by (simp add: callbacks_of_make)
  from hana_run_ons [OF this, of callbacks w] obtain r where
    r: "hana_run ?r (map (On e) callbacks) w = Returned r w"
      "callbacks_of r = (callbacks_of ?r)(e \<mapsto> [] @ callbacks)"
    by blast
  then have cb: "callbacks_of r e = Some callbacks" by simp
  with r(1) hana_trigger_known [OF cb]
  show "\<exists>r. hana_run ?r (map (On e) callbacks) w = Returned r w
            \<and> hana_trigger r e w' = Returned r (invoke_all callbacks w')"
    by blast
next
  show "invoke_all (map say ls) out = out @ ls" by (rule invoke_all_say)
qed

theorem trigger_in_registration_order_witness:
  "''foo'' \<in> set [''foo'', ''bar'', ''baz'']
   \<and> (\<exists>r. run (new_event_system [''foo'', ''bar'', ''baz''])
              (map (On ''foo'') [say ''foo triggered!'', say ''foo again!'']) [] = Returned r []
         \<and> trigger r ''foo'' [] = Returned r [''foo triggered!'', ''foo again!''])
   \<and> (\<exists>r. hana_run (make_event_system [''foo'', ''bar'', ''baz''])
              (map (On ''foo'') [say ''foo triggered!'', say ''foo again!'']) [] = Returned r []
         \<and> hana_trigger r ''foo'' [] = Returned r [''foo triggered!'', ''foo again!''])"
proof -
  have mem: "''foo'' \<in> set [''foo'', ''bar'', ''baz'']" by simp
  have out: "invoke_all [say ''foo triggered!'', say ''foo again!''] []
      = [''foo triggered!'', ''foo again!'']"
    by (simp add: say_def)
  from trigger_in_registration_order [OF mem,
      of "[say ''foo triggered!'', say ''foo again!'']" "[]" "[]" "[]" "[]"]
  show ?thesis unfolding out using mem by blast
qed

text \<open>
  Claim C2. A name that is not an event of the registry must abort
  \<^verbatim>\<open>trigger(std::string const&)\<close> of \<^verbatim>\<open>hana.cpp\<close> before any callback runs. The code does not
  do so for every such name: \<^verbatim>\<open>dynamic_\<close> is keyed by \<^verbatim>\<open>event.c_str()\<close>, which ends at the
  first NUL of the key. In the registry of the single event \<^verbatim>\<open>"a\0b"_s\<close>, with one callback
  registered on it, the name \<^verbatim>\<open>"a"\<close> is not an event, and \<^verbatim>\<open>trigger(std::string("a"))\<close>
  finds the vector of \<^verbatim>\<open>"a\0b"_s\<close>, calls the callback and returns. (For \<^verbatim>\<open>trigger\<close> and
  \<^verbatim>\<open>on\<close> of \<^verbatim>\<open>runtime.cpp\<close>, and for a text that is the text of no key of \<^verbatim>\<open>hana.cpp\<close>, the
  abort is proved in \<open>runtime_unknown_event_aborts\<close> and \<open>hana_unknown_text_aborts\<close>.)
\<close>

theorem unknown_name_triggers_nul_key:
  "''a'' \<notin> set [[CHR ''a'', CHR 0x00, CHR ''b'']]
   \<and> (\<exists>r. hana_run (make_event_system [[CHR ''a'', CHR 0x00, CHR ''b'']])
              [On [CHR ''a'', CHR 0x00, CHR ''b''] (say ''called'')] [] = Returned r []
         \<and> hana_trigger_string r ''a'' [] = Returned r [''called''])"
  by (simp add: make_event_system_def um_insert_def c_str_def hana_on_def
      hana_trigger_string_def keys_def say_def)

text \<open>
  Claim C3. In a hana registry made for \<open>events\<close> and used by any calls that returned:
  \<^verbatim>\<open>on\<close> and \<^verbatim>\<open>trigger(Event)\<close> with a compile-time event that is not one of \<open>events\<close> end
  in their failed \<^verbatim>\<open>static_assert\<close>, with its message, whatever the state of the registry;
  with an event of \<open>events\<close> they return. A call passes the compiler's check exactly when it
  does not end in a failed \<^verbatim>\<open>static_assert\<close>, so a program with a call of \<^verbatim>\<open>on\<close> or
  \<^verbatim>\<open>trigger(Event)\<close> on an unknown event is not built, wherever the call stands in it; and a
  program that is built, run on the registry made for \<open>events\<close>, never ends in a failed
  \<^verbatim>\<open>static_assert\<close> (a trigger by \<^verbatim>\<open>std::string\<close> may still abort the run).
\<close>

theorem unknown_event_rejected_at_build:
  "(e \<notin> set events \<and> hana_run (make_event_system events) cs0 w0 = Returned r w1 \<longrightarrow>
      hana_on r e callback w = Rejected ''trying to add a callback to an unknown event''
      \<and> hana_trigger r e w = Rejected ''trying to trigger an unknown event'')
   \<and> (e \<in> set events \<and> hana_run (make_event_system events) cs0 w0 = Returned r w1 \<longrightarrow>
      (\<exists>r'. hana_on r e callback w = Returned r' w) \<and> (\<exists>w'. hana_trigger r e w = Returned r w'))
   \<and> (hana_run (make_event_system events) cs0 w0 = Returned r w1 \<longrightarrow>
      static_assert_ok events c = (\<forall>msg. hana_exec r c w \<noteq> Rejected msg))
   \<and> (e \<notin> set events \<longrightarrow>
      \<not> builds events (pre @ On e callback # post) \<and> \<not> builds events (pre @ Trigger e # post))
   \<and> (builds events cs \<longrightarrow> (\<forall>msg. hana_run (make_event_system events) cs w \<noteq> Rejected msg))"
proof (intro conjI impI)
  assume a: "e \<notin> set events \<and> hana_run (make_event_system events) cs0 w0 = Returned r w1"
  then have "callbacks_of r e = None" using callbacks_of_reachable [of events cs0 w0 r w1 e] by simp
  then show "hana_on r e callback w = Rejected ''trying to add a callback to an unknown event''"
    and "hana_trigger r e w = Rejected ''trying to trigger an unknown event''"
    by (simp_all add: hana_on_unknown hana_trigger_def callbacks_of_def)
next
  assume a: "e \<in> set events \<and> hana_run (make_event_system events) cs0 w0 = Returned r w1"
  then obtain cbs where cbs: "callbacks_of r e = Some cbs"
    using callbacks_of_reachable [of events cs0 w0 r w1 e] by auto
  from hana_on_known [OF cbs, of callback w]
  show "\<exists>r'. hana_on r e callback w = Returned r' w" by blast
  from hana_trigger_known [OF cbs, of w]
  show "\<exists>w'. hana_trigger r e w = Returned r w'" by simp
next
  assume a: "hana_run (make_event_system events) cs0 w0 = Returned r w1"
  note known = callbacks_of_reachable [OF a]
  show "static_assert_ok events c = (\<forall>msg. hana_exec r c w \<noteq> Rejected msg)"
  proof (cases c)
    case (On e' cb)
    show ?thesis
    proof (cases "callbacks_of r e'")
      case None
      with known [of e'] On show ?thesis by (simp add: hana_on_unknown)
    next
      case (Some cbs)
      from hana_on_known [OF Some, of cb w] known [of e'] Some On show ?thesis by auto
    qed
  next
    case (Trigger e')
    show ?thesis
    proof (cases "callbacks_of r e'")
      case None
      with known [of e'] Trigger show ?thesis by (simp add: hana_trigger_def callbacks_of_def)
    next
      case (Some cbs)
      from hana_trigger_known [OF Some, of w] known [of e'] Some Trigger show ?thesis by auto
    qed
  next
    case (Trigger_string s)
    then show ?thesis by (simp add: hana_trigger_string_def split: option.splits)
  qed
next
  assume "e \<notin> set events"
  then show "\<not> builds events (pre @ On e callback # post)"
    and "\<not> builds events (pre @ Trigger e # post)"
    by (simp_all add: builds_def)
next
  assume "builds events cs"
  then show "\<forall>msg. hana_run (make_event_system events) cs w \<noteq> Rejected msg"
    using hana_run_not_Rejected [of "make_event_system events" cs w] by (simp add: keys_make)
qed

theorem unknown_event_rejected_at_build_witness:
  "''unknown'' \<notin> set [''foo'', ''bar'', ''baz'']
   \<and> ''foo'' \<in> set [''foo'', ''bar'', ''baz'']
   \<and> (\<exists>r. hana_run (make_event_system [''foo'', ''bar'', ''baz''])
         [On ''foo'' (say ''foo triggered!''), On ''foo'' (say ''foo again!''),
          On ''bar'' (say ''bar triggered!''), On ''baz'' (say ''baz triggered!''),
          Trigger ''foo'', Trigger ''baz''] []
        = Returned r [''foo triggered!'', ''foo again!'', ''baz triggered!'']
      \<and> hana_on r ''unknown'' (say ''never'') []
          = Rejected ''trying to add a callback to an unknown event''
      \<and> hana_trigger r ''unknown'' [] = Rejected ''trying to trigger an unknown event''
      \<and> (\<exists>r'. hana_on r ''foo'' (say ''late'') [] = Returned r' [])
      \<and> (\<exists>w'. hana_trigger r ''foo'' [] = Returned r w')
      \<and> static_assert_ok [''foo'', ''bar'', ''baz''] (Trigger ''foo'' :: string list call)
      \<and> (\<forall>msg. hana_exec r (Trigger ''foo'') [] \<noteq> Rejected msg)
      \<and> \<not> static_assert_ok [''foo'', ''bar'', ''baz''] (On ''unknown'' (say ''never''))
      \<and> \<not> (\<forall>msg. hana_exec r (On ''unknown'' (say ''never'')) [] \<noteq> Rejected msg))
   \<and> \<not> builds [''foo'', ''bar'', ''baz'']
        ([On ''foo'' (say ''foo triggered!'')] @ On ''unknown'' (say ''never'') # [Trigger ''foo''])
   \<and> \<not> builds [''foo'', ''bar'', ''baz'']
        ([On ''foo'' (say ''foo triggered!'')] @ Trigger ''unknown'' # [Trigger ''foo''])
   \<and> builds [''foo'', ''bar'', ''baz'']
        [On ''foo'' (say ''foo triggered!''), Trigger ''foo'', Trigger_string ''unknown'']
   \<and> (\<forall>msg. hana_run (make_event_system [''foo'', ''bar'', ''baz''])
        [On ''foo'' (say ''foo triggered!''), Trigger ''foo'', Trigger_string ''unknown''] []
        \<noteq> Rejected msg)"
proof -
  let ?evs = "[''foo'', ''bar'', ''baz'']"
  let ?main = "[On ''foo'' (say ''foo triggered!''), On ''foo'' (say ''foo again!''),
      On ''bar'' (say ''bar triggered!''), On ''baz'' (say ''baz triggered!''),
      Trigger ''foo'', Trigger ''baz'']"
  let ?out = "[''foo triggered!'', ''foo again!'', ''baz triggered!'']"
  let ?built = "[On ''foo'' (say ''foo triggered!''), Trigger ''foo'', Trigger_string ''unknown'']"
  have unknown: "''unknown'' \<notin> set ?evs" and known: "''foo'' \<in> set ?evs" by simp_all
  have ok: "static_assert_ok ?evs (Trigger ''foo'' :: string list call)"
    and bad: "\<not> static_assert_ok ?evs (On ''unknown'' (say ''never''))"
    by simp_all
  have built: "builds ?evs ?built" by (simp add: builds_def)
  from main_hana obtain r where
    r: "hana_run (make_event_system ?evs) ?main [] = Returned r ?out" ..
  note u = unknown_event_rejected_at_build [of "''unknown''" ?evs ?main "[]" r ?out
      "say ''never''" "[]" "On ''unknown'' (say ''never'')"
      "[On ''foo'' (say ''foo triggered!'')]" "[Trigger ''foo'']" ?built]
  note k = unknown_event_rejected_at_build [of "''foo''" ?evs ?main "[]" r ?out
      "say ''late''" "[]" "Trigger ''foo''"
      "[On ''foo'' (say ''foo triggered!'')]" "[Trigger ''foo'']" ?built]
  from u unknown r have 1: "hana_on r ''unknown'' (say ''never'') []
          = Rejected ''trying to add a callback to an unknown event''"
    and 2: "hana_trigger r ''unknown'' [] = Rejected ''trying to trigger an unknown event''"
    by blast+
  from k known r have 3: "\<exists>r'. hana_on r ''foo'' (say ''late'') [] = Returned r' []"
    and 4: "\<exists>w'. hana_trigger r ''foo'' [] = Returned r w'"
    by blast+
  from k r ok have 5: "\<forall>msg. hana_exec r (Trigger ''foo'') [] \<noteq> Rejected msg" by blast
  from u r bad have 6: "\<not> (\<forall>msg. hana_exec r (On ''unknown'' (say ''never'')) [] \<noteq> Rejected msg)"
    by blast
  from u unknown have 7: "\<not> builds ?evs
        ([On ''foo'' (say ''foo triggered!'')] @ On ''unknown'' (say ''never'') # [Trigger ''foo''])"
    and 8: "\<not> builds ?evs
        ([On ''foo'' (say ''foo triggered!'')] @ Trigger ''unknown'' # [Trigger ''foo''])"
    by blast+
  from u built have 9: "\<forall>msg. hana_run (make_event_system ?evs) ?built [] \<noteq> Rejected msg"
    by blast
  from unknown known r 1 2 3 4 ok 5 bad 6 7 8 built 9 show ?thesis by blast
qed

text \<open>
  Claim C4. For every key \<open>e\<close> of the hana registry, triggering by the text of \<open>e\<close> must reach
  the vector \<^verbatim>\<open>map_[e]\<close> that \<^verbatim>\<open>on(e, c)\<close> and \<^verbatim>\<open>trigger(e)\<close> use. The code does not do so
  for every key: the text stored in \<^verbatim>\<open>dynamic_\<close> is \<^verbatim>\<open>event.c_str()\<close>, which ends at the first
  NUL of the key, and \<^verbatim>\<open>insert\<close> keeps the first key of a text. In the registry of the events
  \<^verbatim>\<open>"a\0b"_s\<close> and \<^verbatim>\<open>"a\0c"_s\<close>, with one callback registered on each, \<^verbatim>\<open>trigger("a\0c"_s)\<close>
  calls the callback of \<^verbatim>\<open>"a\0c"_s\<close>; triggering by its text \<^verbatim>\<open>"a"\<close> calls the callback of
  \<^verbatim>\<open>"a\0b"_s\<close> instead; and triggering by the whole name, as a \<^verbatim>\<open>std::string\<close> of three
  characters, aborts. (For keys without NUL the two paths agree: \<open>hana_known_text_runs\<close>.)
\<close>

theorem text_of_nul_key_misses_its_vector:
  "[CHR ''a'', CHR 0x00, CHR ''c''] \<in> set [[CHR ''a'', CHR 0x00, CHR ''b''], [CHR ''a'', CHR 0x00, CHR ''c'']]
   \<and> c_str [CHR ''a'', CHR 0x00, CHR ''c''] = ''a''
   \<and> (\<exists>r. hana_run (make_event_system [[CHR ''a'', CHR 0x00, CHR ''b''], [CHR ''a'', CHR 0x00, CHR ''c'']])
              [On [CHR ''a'', CHR 0x00, CHR ''b''] (say ''b called''),
               On [CHR ''a'', CHR 0x00, CHR ''c''] (say ''c called'')] [] = Returned r []
         \<and> hana_trigger r [CHR ''a'', CHR 0x00, CHR ''c''] [] = Returned r [''c called'']
         \<and> hana_trigger_string r ''a'' [] = Returned r [''b called'']
         \<and> hana_trigger_string r [CHR ''a'', CHR 0x00, CHR ''c''] []
             = Aborted ''trying to trigger an unknown event'' [])"
  by (simp add: make_event_system_def um_insert_def c_str_def hana_on_def hana_trigger_def
      hana_trigger_string_def keys_def say_def)

text \<open>
  Claim C5. Whatever calls of \<^verbatim>\<open>on\<close> and \<^verbatim>\<open>trigger\<close> have returned, the keys of the registry
  are those it was constructed with: the domain of \<^verbatim>\<open>map_\<close> in \<^verbatim>\<open>runtime.cpp\<close>; the keys of
  \<^verbatim>\<open>map_\<close> in \<^verbatim>\<open>hana.cpp\<close>, where \<^verbatim>\<open>dynamic_\<close> too is as the constructor left it, its keys
  being the texts of the events. A call of \<^verbatim>\<open>on\<close> that returns was for a key that was
  present, and changes the registry only by appending the callback to that key's list.
\<close>

theorem key_set_is_fixed:
  "(run (new_event_system events) cs w = Returned r w' \<longrightarrow> dom (rmap r) = set events)
   \<and> (hana_run (make_event_system events) cs w = Returned hr hw \<longrightarrow>
        keys hr = events \<and> dynamic hr = dynamic (make_event_system events)
        \<and> dom (dynamic hr) = c_str ` set events)
   \<and> (on r0 e c w = Returned r1 w1 \<longrightarrow>
        (\<exists>callbacks. rmap r0 e = Some callbacks \<and> rmap r1 = (rmap r0)(e \<mapsto> callbacks @ [c])))
   \<and> (hana_on hr0 e c w = Returned hr1 w1 \<longrightarrow>
        keys hr1 = keys hr0 \<and> dynamic hr1 = dynamic hr0
        \<and> (\<exists>callbacks. callbacks_of hr0 e = Some callbacks
              \<and> callbacks_of hr1 = (callbacks_of hr0)(e \<mapsto> callbacks @ [c])))"
proof (intro conjI impI)
  assume "run (new_event_system events) cs w = Returned r w'"
  then show "dom (rmap r) = set events" by (rule reachable_runtime)
next
  assume a: "hana_run (make_event_system events) cs w = Returned hr hw"
  then show "keys hr = events" by (rule reachable_hana)
  from hana_run_Returned [OF a]
  have d: "dynamic hr = at_key (map c_str events)" by (simp add: dynamic_make)
  then show "dynamic hr = dynamic (make_event_system events)" by (simp add: dynamic_make)
  from d show "dom (dynamic hr) = c_str ` set events" by (simp add: dom_at_key)
next
  assume "on r0 e c w = Returned r1 w1"
  then show "\<exists>callbacks. rmap r0 e = Some callbacks \<and> rmap r1 = (rmap r0)(e \<mapsto> callbacks @ [c])"
    by (cases "rmap r0 e") (auto simp: on_def)
next
  assume a: "hana_on hr0 e c w = Returned hr1 w1"
  then obtain cbs where cbs: "callbacks_of hr0 e = Some cbs"
    by (cases "callbacks_of hr0 e") (auto simp: hana_on_unknown)
  from hana_on_known [OF cbs, of c w] a
  have *: "keys hr1 = keys hr0 \<and> dynamic hr1 = dynamic hr0
      \<and> callbacks_of hr1 = (callbacks_of hr0)(e \<mapsto> cbs @ [c])"
    by auto
  then show "keys hr1 = keys hr0" and "dynamic hr1 = dynamic hr0" by simp_all
  from * cbs show "\<exists>callbacks. callbacks_of hr0 e = Some callbacks
      \<and> callbacks_of hr1 = (callbacks_of hr0)(e \<mapsto> callbacks @ [c])"
    by blast
qed

theorem key_set_is_fixed_witness:
  "(\<exists>r. run (new_event_system [''foo'', ''bar'', ''baz''])
         [On ''foo'' (say ''foo triggered!''), On ''foo'' (say ''foo again!''),
          On ''bar'' (say ''bar triggered!''), On ''baz'' (say ''baz triggered!''),
          Trigger ''foo'', Trigger ''baz''] []
        = Returned r [''foo triggered!'', ''foo again!'', ''baz triggered!'']
      \<and> dom (rmap r) = set [''foo'', ''bar'', ''baz''])
   \<and> (\<exists>hr. hana_run (make_event_system [''foo'', ''bar'', ''baz''])
         [On ''foo'' (say ''foo triggered!''), On ''foo'' (say ''foo again!''),
          On ''bar'' (say ''bar triggered!''), On ''baz'' (say ''baz triggered!''),
          Trigger ''foo'', Trigger ''baz''] []
        = Returned hr [''foo triggered!'', ''foo again!'', ''baz triggered!'']
      \<and> keys hr = [''foo'', ''bar'', ''baz'']
      \<and> dynamic hr = dynamic (make_event_system [''foo'', ''bar'', ''baz''] :: string list hana_event_system)
      \<and> dom (dynamic hr) = c_str ` set [''foo'', ''bar'', ''baz''])
   \<and> (\<exists>r1. on (new_event_system [''foo'', ''bar'', ''baz'']) ''foo'' (say ''foo triggered!'') []
        = Returned r1 []
      \<and> (\<exists>callbacks. rmap (new_event_system [''foo'', ''bar'', ''baz'']) ''foo'' = Some callbacks
            \<and> rmap r1 = (rmap (new_event_system [''foo'', ''bar'', ''baz'']))
                 (''foo'' \<mapsto> callbacks @ [say ''foo triggered!''])))
   \<and> (\<exists>hr1. hana_on (make_event_system [''foo'', ''bar'', ''baz'']) ''foo'' (say ''foo triggered!'') []
        = Returned hr1 []
      \<and> keys hr1 = keys (make_event_system [''foo'', ''bar'', ''baz''] :: string list hana_event_system)
      \<and> dynamic hr1 = dynamic (make_event_system [''foo'', ''bar'', ''baz''] :: string list hana_event_system)
      \<and> (\<exists>callbacks. callbacks_of (make_event_system [''foo'', ''bar'', ''baz'']) ''foo'' = Some callbacks
            \<and> callbacks_of hr1 = (callbacks_of (make_event_system [''foo'', ''bar'', ''baz'']))
                 (''foo'' \<mapsto> callbacks @ [say ''foo triggered!''])))"
proof -
  let ?evs = "[''foo'', ''bar'', ''baz'']"
  let ?fresh = "new_event_system ?evs :: string list event_system"
  let ?hfresh = "make_event_system ?evs :: string list hana_event_system"
  from main_runtime obtain r where r: "run ?fresh
         [On ''foo'' (say ''foo triggered!''), On ''foo'' (say ''foo again!''),
          On ''bar'' (say ''bar triggered!''), On ''baz'' (say ''baz triggered!''),
          Trigger ''foo'', Trigger ''baz''] []
        = Returned r [''foo triggered!'', ''foo again!'', ''baz triggered!'']" ..
  from main_hana obtain hr where hr: "hana_run ?hfresh
         [On ''foo'' (say ''foo triggered!''), On ''foo'' (say ''foo again!''),
          On ''bar'' (say ''bar triggered!''), On ''baz'' (say ''baz triggered!''),
          Trigger ''foo'', Trigger ''baz''] []
        = Returned hr [''foo triggered!'', ''foo again!'', ''baz triggered!'']" ..
  have "rmap ?fresh ''foo'' = Some []" by (simp add: map_new_event_system)
  then obtain r1 where r1: "on ?fresh ''foo'' (say ''foo triggered!'') [] = Returned r1 []"
    by (simp add: on_known)
  have "callbacks_of ?hfresh ''foo'' = Some []" by (simp add: callbacks_of_make)
  from hana_on_known [OF this, of "say ''foo triggered!''" "[]"]
  obtain hr1 where hr1: "hana_on ?hfresh ''foo'' (say ''foo triggered!'') [] = Returned hr1 []"
    by blast
  from key_set_is_fixed [of ?evs
      "[On ''foo'' (say ''foo triggered!''), On ''foo'' (say ''foo again!''),
        On ''bar'' (say ''bar triggered!''), On ''baz'' (say ''baz triggered!''),
        Trigger ''foo'', Trigger ''baz'']" "[]" r
      "[''foo triggered!'', ''foo again!'', ''baz triggered!'']" hr
      "[''foo triggered!'', ''foo again!'', ''baz triggered!'']"
      ?fresh "''foo''" "say ''foo triggered!''" r1 "[]" ?hfresh hr1] r hr r1 hr1
  show ?thesis by blast
qed



text \<open>
  Claim C7. For an event \<open>e\<close> of the events a registry was built for: triggering \<open>e\<close> on
  the new registry, and on the registry after any calls that returned and left the list of
  \<open>e\<close> empty, returns with the registry and the world as they were. This holds for
  \<^verbatim>\<open>trigger\<close> of \<^verbatim>\<open>runtime.cpp\<close> and for \<^verbatim>\<open>trigger(Event)\<close> of \<^verbatim>\<open>hana.cpp\<close>.
\<close>

theorem trigger_without_callbacks_is_noop:
  assumes "e \<in> set events"
  shows "trigger (new_event_system events) e w = Returned (new_event_system events) w
       \<and> hana_trigger (make_event_system events) e w = Returned (make_event_system events) w
       \<and> (run (new_event_system events) cs w0 = Returned r w1 \<and> rmap r e = Some []
            \<longrightarrow> trigger r e w = Returned r w)
       \<and> (hana_run (make_event_system events) cs w0 = Returned hr hw1
              \<and> callbacks_of hr e = Some []
            \<longrightarrow> hana_trigger hr e w = Returned hr w)"
proof -
  let ?r = "new_event_system events :: 'a event_system"
  let ?hr = "make_event_system events :: 'a hana_event_system"
  have "rmap ?r e = Some []" using assms by (simp add: map_new_event_system)
  then have 1: "trigger ?r e w = Returned ?r w" by (simp add: trigger_known)
  have fresh: "callbacks_of ?hr e = Some []" using assms by (simp add: callbacks_of_make)
  then have 2: "hana_trigger ?hr e w = Returned ?hr w" by (simp add: hana_trigger_known)
  have 3: "trigger r e w = Returned r w" if "rmap r e = Some []"
    using that by (simp add: trigger_known)
  have 4: "hana_trigger hr e w = Returned hr w" if "callbacks_of hr e = Some []"
    using that by (simp add: hana_trigger_known)
  from 1 2 3 4 show ?thesis by blast
qed

theorem trigger_without_callbacks_is_noop_witness:
  "''bar'' \<in> set [''foo'', ''bar'', ''baz'']
   \<and> trigger (new_event_system [''foo'', ''bar'', ''baz'']) ''bar'' [''before'']
       = Returned (new_event_system [''foo'', ''bar'', ''baz'']) [''before'']
   \<and> hana_trigger (make_event_system [''foo'', ''bar'', ''baz'']) ''bar'' [''before'']
       = Returned (make_event_system [''foo'', ''bar'', ''baz'']) [''before'']
   \<and> (\<exists>r. run (new_event_system [''foo'', ''bar'', ''baz'']) [On ''foo'' (say ''foo triggered!'')] []
         = Returned r []
       \<and> rmap r ''bar'' = Some []
       \<and> trigger r ''bar'' [''before''] = Returned r [''before''])
   \<and> (\<exists>hr. hana_run (make_event_system [''foo'', ''bar'', ''baz'']) [On ''foo'' (say ''foo triggered!'')] []
         = Returned hr []
       \<and> callbacks_of hr ''bar'' = Some []
       \<and> hana_trigger hr ''bar'' [''before''] = Returned hr [''before''])"
proof -
  let ?evs = "[''foo'', ''bar'', ''baz'']"
  let ?fresh = "new_event_system ?evs :: string list event_system"
  let ?hfresh = "make_event_system ?evs :: string list hana_event_system"
  let ?c = "say ''foo triggered!''"
  have mem: "''bar'' \<in> set ?evs" by simp
  have foo: "rmap ?fresh ''foo'' = Some []" by (simp add: map_new_event_system)
  let ?r = "?fresh\<lparr>rmap := (rmap ?fresh)(''foo'' \<mapsto> [] @ [?c])\<rparr>"
  have r: "run ?fresh [On ''foo'' ?c] [] = Returned ?r []"
    using on_known [OF foo, of ?c "[]"] by simp
  have bar: "rmap ?r ''bar'' = Some []" by (simp add: map_new_event_system)
  have hfoo: "callbacks_of ?hfresh ''foo'' = Some []" by (simp add: callbacks_of_make)
  from hana_on_known [OF hfoo, of ?c "[]"] obtain hr where
    hon: "hana_on ?hfresh ''foo'' ?c [] = Returned hr []"
    and hcb: "callbacks_of hr = (callbacks_of ?hfresh)(''foo'' \<mapsto> [] @ [?c])"
    by blast
  from hon have hr: "hana_run ?hfresh [On ''foo'' ?c] [] = Returned hr []" by simp
  from hcb have hbar: "callbacks_of hr ''bar'' = Some []" by (simp add: callbacks_of_make)
  from trigger_without_callbacks_is_noop [OF mem, of "[''before'']" "[On ''foo'' ?c]" "[]" ?r "[]" hr "[]"]
    mem r bar hr hbar
  show ?thesis by blast
qed

text \<open>
  Claim C8. In a registry built for \<open>events\<close> and used by any calls that returned, for an
  event \<open>e\<close> of them with the callbacks \<open>callbacks\<close>: one trigger calls \<open>callbacks\<close> in
  order; two triggers in succession call \<open>callbacks\<close> in order and then \<open>callbacks\<close> in
  order again; and with \<^verbatim>\<open>on(e, c)\<close> between two triggers, the world after the registration is
  still the one the first trigger left (that trigger called \<open>callbacks\<close> only) and the
  second trigger calls \<open>callbacks\<close> and then \<open>c\<close>.
\<close>

theorem repeated_trigger_and_late_registration:
  assumes "e \<in> set events"
    and "run (new_event_system events) cs w0 = Returned r w1"
    and "hana_run (make_event_system events) cs w0 = Returned hr hw1"
  shows "(\<exists>callbacks r'. rmap r e = Some callbacks
            \<and> run r [Trigger e] w = Returned r (invoke_all callbacks w)
            \<and> run r [Trigger e, Trigger e] w
                = Returned r (invoke_all callbacks (invoke_all callbacks w))
            \<and> run r [Trigger e, On e c] w = Returned r' (invoke_all callbacks w)
            \<and> run r [Trigger e, On e c, Trigger e] w
                = Returned r' (invoke_all (callbacks @ [c]) (invoke_all callbacks w)))
       \<and> (\<exists>callbacks hr'. callbacks_of hr e = Some callbacks
            \<and> hana_run hr [Trigger e] w = Returned hr (invoke_all callbacks w)
            \<and> hana_run hr [Trigger e, Trigger e] w
                = Returned hr (invoke_all callbacks (invoke_all callbacks w))
            \<and> hana_run hr [Trigger e, On e c] w = Returned hr' (invoke_all callbacks w)
            \<and> hana_run hr [Trigger e, On e c, Trigger e] w
                = Returned hr' (invoke_all (callbacks @ [c]) (invoke_all callbacks w)))"
proof (rule conjI)
  from assms(1) rmap_reachable [OF assms(2), of e] obtain cbs where cbs: "rmap r e = Some cbs"
    by auto
  let ?r' = "r\<lparr>rmap := (rmap r)(e \<mapsto> cbs @ [c])\<rparr>"
  have cbs': "rmap ?r' e = Some (cbs @ [c])" by simp
  have t: "trigger r e v = Returned r (invoke_all cbs v)" for v
    using cbs by (rule trigger_known)
  have t': "trigger ?r' e v = Returned ?r' (invoke_all (cbs @ [c]) v)" for v
    using cbs' by (rule trigger_known)
  have o: "on r e c v = Returned ?r' v" for v
    using cbs by (rule on_known)
  have "run r [Trigger e] w = Returned r (invoke_all cbs w)"
    and "run r [Trigger e, Trigger e] w = Returned r (invoke_all cbs (invoke_all cbs w))"
    and "run r [Trigger e, On e c] w = Returned ?r' (invoke_all cbs w)"
    and "run r [Trigger e, On e c, Trigger e] w
          = Returned ?r' (invoke_all (cbs @ [c]) (invoke_all cbs w))"
    by (simp_all only: run.simps exec.simps t t' o outcome.case)
  with cbs show "\<exists>callbacks r'. rmap r e = Some callbacks
            \<and> run r [Trigger e] w = Returned r (invoke_all callbacks w)
            \<and> run r [Trigger e, Trigger e] w
                = Returned r (invoke_all callbacks (invoke_all callbacks w))
            \<and> run r [Trigger e, On e c] w = Returned r' (invoke_all callbacks w)
            \<and> run r [Trigger e, On e c, Trigger e] w
                = Returned r' (invoke_all (callbacks @ [c]) (invoke_all callbacks w))"
    by blast
next
  from assms(1) callbacks_of_reachable [OF assms(3), of e]
  obtain cbs where cbs: "callbacks_of hr e = Some cbs" by auto
  from hana_on_known [OF cbs, of c] obtain hr' where
    o: "hana_on hr e c (invoke_all cbs w) = Returned hr' (invoke_all cbs w)"
    and "callbacks_of hr' = (callbacks_of hr)(e \<mapsto> cbs @ [c])"
    by blast
  then have cbs': "callbacks_of hr' e = Some (cbs @ [c])" by simp
  have t: "hana_trigger hr e v = Returned hr (invoke_all cbs v)" for v
    using cbs by (rule hana_trigger_known)
  have t': "hana_trigger hr' e v = Returned hr' (invoke_all (cbs @ [c]) v)" for v
    using cbs' by (rule hana_trigger_known)
  have "hana_run hr [Trigger e] w = Returned hr (invoke_all cbs w)"
    and "hana_run hr [Trigger e, Trigger e] w = Returned hr (invoke_all cbs (invoke_all cbs w))"
    and "hana_run hr [Trigger e, On e c] w = Returned hr' (invoke_all cbs w)"
    and "hana_run hr [Trigger e, On e c, Trigger e] w
          = Returned hr' (invoke_all (cbs @ [c]) (invoke_all cbs w))"
    by (simp_all only: hana_run.simps hana_exec.simps t t' o outcome.case)
  with cbs show "\<exists>callbacks hr'. callbacks_of hr e = Some callbacks
            \<and> hana_run hr [Trigger e] w = Returned hr (invoke_all callbacks w)
            \<and> hana_run hr [Trigger e, Trigger e] w
                = Returned hr (invoke_all callbacks (invoke_all callbacks w))
            \<and> hana_run hr [Trigger e, On e c] w = Returned hr' (invoke_all callbacks w)
            \<and> hana_run hr [Trigger e, On e c, Trigger e] w
                = Returned hr' (invoke_all (callbacks @ [c]) (invoke_all callbacks w))"
    by blast
qed

theorem repeated_trigger_and_late_registration_witness:
  "''foo'' \<in> set [''foo'', ''bar'', ''baz'']
   \<and> (\<exists>r r'. run (new_event_system [''foo'', ''bar'', ''baz''])
          [On ''foo'' (say ''foo triggered!''), On ''foo'' (say ''foo again!''),
           On ''bar'' (say ''bar triggered!''), On ''baz'' (say ''baz triggered!''),
           Trigger ''foo'', Trigger ''baz''] []
         = Returned r [''foo triggered!'', ''foo again!'', ''baz triggered!'']
       \<and> run r [Trigger ''foo''] [] = Returned r [''foo triggered!'', ''foo again!'']
       \<and> run r [Trigger ''foo'', Trigger ''foo''] []
           = Returned r [''foo triggered!'', ''foo again!'', ''foo triggered!'', ''foo again!'']
       \<and> run r [Trigger ''foo'', On ''foo'' (say ''late'')] []
           = Returned r' [''foo triggered!'', ''foo again!'']
       \<and> run r [Trigger ''foo'', On ''foo'' (say ''late''), Trigger ''foo''] []
           = Returned r' [''foo triggered!'', ''foo again!'',
                ''foo triggered!'', ''foo again!'', ''late''])
   \<and> (\<exists>hr hr'. hana_run (make_event_system [''foo'', ''bar'', ''baz''])
          [On ''foo'' (say ''foo triggered!''), On ''foo'' (say ''foo again!''),
           On ''bar'' (say ''bar triggered!''), On ''baz'' (say ''baz triggered!''),
           Trigger ''foo'', Trigger ''baz''] []
         = Returned hr [''foo triggered!'', ''foo again!'', ''baz triggered!'']
       \<and> hana_run hr [Trigger ''foo''] [] = Returned hr [''foo triggered!'', ''foo again!'']
       \<and> hana_run hr [Trigger ''foo'', Trigger ''foo''] []
           = Returned hr [''foo triggered!'', ''foo again!'', ''foo triggered!'', ''foo again!'']
       \<and> hana_run hr [Trigger ''foo'', On ''foo'' (say ''late'')] []
           = Returned hr' [''foo triggered!'', ''foo again!'']
       \<and> hana_run hr [Trigger ''foo'', On ''foo'' (say ''late''), Trigger ''foo''] []
           = Returned hr' [''foo triggered!'', ''foo again!'',
                ''foo triggered!'', ''foo again!'', ''late''])"
proof -
  let ?evs = "[''foo'', ''bar'', ''baz'']"
  let ?main = "[On ''foo'' (say ''foo triggered!''), On ''foo'' (say ''foo again!''),
      On ''bar'' (say ''bar triggered!''), On ''baz'' (say ''baz triggered!''),
      Trigger ''foo'', Trigger ''baz'']"
  let ?out = "[''foo triggered!'', ''foo again!'', ''baz triggered!'']"
  let ?foo = "[say ''foo triggered!'', say ''foo again!'']"
  have mem: "''foo'' \<in> set ?evs" by simp
  from main_runtime_foo obtain r where
    r: "run (new_event_system ?evs) ?main [] = Returned r ?out" and rf: "rmap r ''foo'' = Some ?foo"
    by blast
  from main_hana_foo obtain hr where
    hr: "hana_run (make_event_system ?evs) ?main [] = Returned hr ?out"
    and hf: "callbacks_of hr ''foo'' = Some ?foo"
    by blast
  have out: "invoke_all ?foo [] = [''foo triggered!'', ''foo again!'']"
    "invoke_all ?foo [''foo triggered!'', ''foo again!'']
      = [''foo triggered!'', ''foo again!'', ''foo triggered!'', ''foo again!'']"
    "invoke_all (?foo @ [say ''late'']) [''foo triggered!'', ''foo again!'']
      = [''foo triggered!'', ''foo again!'', ''foo triggered!'', ''foo again!'', ''late'']"
    by (simp_all add: say_def)
  from repeated_trigger_and_late_registration [OF mem r hr, of "[]" "say ''late''"] rf hf
  have "(\<exists>r'. run r [Trigger ''foo''] [] = Returned r (invoke_all ?foo [])
            \<and> run r [Trigger ''foo'', Trigger ''foo''] []
                = Returned r (invoke_all ?foo (invoke_all ?foo []))
            \<and> run r [Trigger ''foo'', On ''foo'' (say ''late'')] [] = Returned r' (invoke_all ?foo [])
            \<and> run r [Trigger ''foo'', On ''foo'' (say ''late''), Trigger ''foo''] []
                = Returned r' (invoke_all (?foo @ [say ''late'']) (invoke_all ?foo [])))
       \<and> (\<exists>hr'. hana_run hr [Trigger ''foo''] [] = Returned hr (invoke_all ?foo [])
            \<and> hana_run hr [Trigger ''foo'', Trigger ''foo''] []
                = Returned hr (invoke_all ?foo (invoke_all ?foo []))
            \<and> hana_run hr [Trigger ''foo'', On ''foo'' (say ''late'')] []
                = Returned hr' (invoke_all ?foo [])
            \<and> hana_run hr [Trigger ''foo'', On ''foo'' (say ''late''), Trigger ''foo''] []
                = Returned hr' (invoke_all (?foo @ [say ''late'']) (invoke_all ?foo [])))"
    by (elim conjE exE) (simp only: option.inject, blast)
  then show ?thesis unfolding out using mem r hr by blast
qed

text \<open>
  Claim C9. Constructing the runtime registry from a list of names with duplicates: the keys
  are exactly the names of the list, each with an empty list of callbacks; the later
  occurrence of a name changes nothing (the registry is the one built without it), because
  \<^verbatim>\<open>insert\<close> leaves a key that is present, and its value, as they are.
\<close>

theorem duplicate_event_names:
  "dom (rmap (new_event_system events)) = set events
   \<and> (\<forall>e \<in> set events. rmap (new_event_system events) e = Some [])
   \<and> (e \<in> set xs \<longrightarrow> new_event_system (xs @ e # ys) = new_event_system (xs @ ys))
   \<and> (m k = Some v \<longrightarrow> um_insert m k v' = m)"
  by (simp add: new_event_system_def dom_insert_events insert_events_apply um_insert_present
      insert_events_duplicate)


theorem duplicate_event_names_witness:
  "dom (rmap (new_event_system [''foo'', ''bar'', ''foo''] :: string list event_system))
     = set [''foo'', ''bar'', ''foo'']
   \<and> rmap (new_event_system [''foo'', ''bar'', ''foo''] :: string list event_system) ''foo'' = Some []
   \<and> rmap (new_event_system [''foo'', ''bar'', ''foo''] :: string list event_system) ''bar'' = Some []
   \<and> ''foo'' \<in> set [''foo'', ''bar'']
   \<and> (new_event_system ([''foo'', ''bar''] @ ''foo'' # [''baz'']) :: string list event_system)
       = new_event_system ([''foo'', ''bar''] @ [''baz''])
   \<and> [''foo'' \<mapsto> [say ''x'']] ''foo'' = Some [say ''x'']
   \<and> um_insert [''foo'' \<mapsto> [say ''x'']] ''foo'' [] = [''foo'' \<mapsto> [say ''x'']]"
proof -
  have mem: "''foo'' \<in> set [''foo'', ''bar'']" by simp
  have val: "[''foo'' \<mapsto> [say ''x'']] ''foo'' = Some [say ''x'']" by simp
  note inst = duplicate_event_names [of "[''foo'', ''bar'', ''foo'']" "''foo''" "[''foo'', ''bar'']"
      "[''baz'']" "[''foo'' \<mapsto> [say ''x'']]" "''foo''" "[say ''x'']" "[]"]
  from inst have d: "dom (rmap (new_event_system [''foo'', ''bar'', ''foo''] :: string list event_system))
     = set [''foo'', ''bar'', ''foo'']" by (rule conjunct1)
  from inst have a: "\<forall>e \<in> set [''foo'', ''bar'', ''foo''].
      rmap (new_event_system [''foo'', ''bar'', ''foo''] :: string list event_system) e = Some []"
    by (elim conjE)
  from inst mem have n: "(new_event_system ([''foo'', ''bar''] @ ''foo'' # [''baz'']) :: string list event_system)
       = new_event_system ([''foo'', ''bar''] @ [''baz''])"
    by (elim conjE) (erule (1) mp)
  from inst val have u: "um_insert [''foo'' \<mapsto> [say ''x'']] ''foo'' [] = [''foo'' \<mapsto> [say ''x'']]"
    by (elim conjE) (erule (1) mp)
  from a have "rmap (new_event_system [''foo'', ''bar'', ''foo''] :: string list event_system) ''foo'' = Some []"
    and "rmap (new_event_system [''foo'', ''bar'', ''foo''] :: string list event_system) ''bar'' = Some []"
    by simp_all
  with d mem n val u show ?thesis by (intro conjI)
qed

text \<open>
  Claim C10. Triggering an event that is a key of the registry returns the registry it was
  called on: the keys and every list of callbacks, that of the event included, are as before
  (callbacks act on the world only). This holds for \<^verbatim>\<open>trigger\<close> of \<^verbatim>\<open>runtime.cpp\<close> and for
  \<^verbatim>\<open>trigger(Event)\<close> of \<^verbatim>\<open>hana.cpp\<close>; and whenever \<^verbatim>\<open>trigger(std::string const&)\<close> of
  \<^verbatim>\<open>hana.cpp\<close> returns, it too returns the registry it was called on.
\<close>

theorem trigger_leaves_registry_unchanged:
  "(e \<in> dom (rmap r) \<longrightarrow> (\<exists>w'. trigger r e w = Returned r w'))
   \<and> (e \<in> set (keys hr) \<longrightarrow> (\<exists>w'. hana_trigger hr e w = Returned hr w'))
   \<and> (hana_trigger_string hr s w = Returned hr' w1 \<longrightarrow> hr' = hr)"
proof (intro conjI impI)
  assume "e \<in> dom (rmap r)"
  then obtain cbs where "rmap r e = Some cbs" by auto
  then show "\<exists>w'. trigger r e w = Returned r w'" by (simp add: trigger_known)
next
  assume "e \<in> set (keys hr)"
  then have "e \<in> dom (callbacks_of hr)" by (simp add: dom_callbacks_of)
  then obtain cbs where "callbacks_of hr e = Some cbs" by auto
  then show "\<exists>w'. hana_trigger hr e w = Returned hr w'" by (simp add: hana_trigger_known)
next
  assume "hana_trigger_string hr s w = Returned hr' w1"
  then show "hr' = hr"
    by (auto simp: hana_trigger_string_def split: option.splits if_splits)
qed

theorem trigger_leaves_registry_unchanged_witness:
  "(\<exists>r. run (new_event_system [''foo'', ''bar'', ''baz''])
          [On ''foo'' (say ''foo triggered!''), On ''foo'' (say ''foo again!''),
           On ''bar'' (say ''bar triggered!''), On ''baz'' (say ''baz triggered!''),
           Trigger ''foo'', Trigger ''baz''] []
         = Returned r [''foo triggered!'', ''foo again!'', ''baz triggered!'']
       \<and> rmap r ''foo'' = Some [say ''foo triggered!'', say ''foo again!'']
       \<and> ''foo'' \<in> dom (rmap r)
       \<and> (\<exists>w'. trigger r ''foo'' [] = Returned r w')
       \<and> trigger r ''foo'' [] = Returned r [''foo triggered!'', ''foo again!''])
   \<and> (\<exists>hr. hana_run (make_event_system [''foo'', ''bar'', ''baz''])
          [On ''foo'' (say ''foo triggered!''), On ''foo'' (say ''foo again!''),
           On ''bar'' (say ''bar triggered!''), On ''baz'' (say ''baz triggered!''),
           Trigger ''foo'', Trigger ''baz''] []
         = Returned hr [''foo triggered!'', ''foo again!'', ''baz triggered!'']
       \<and> callbacks_of hr ''foo'' = Some [say ''foo triggered!'', say ''foo again!'']
       \<and> ''foo'' \<in> set (keys hr)
       \<and> (\<exists>w'. hana_trigger hr ''foo'' [] = Returned hr w')
       \<and> hana_trigger hr ''foo'' [] = Returned hr [''foo triggered!'', ''foo again!'']
       \<and> hana_trigger_string hr ''foo'' [] = Returned hr [''foo triggered!'', ''foo again!''])"
proof -
  let ?evs = "[''foo'', ''bar'', ''baz'']"
  let ?main = "[On ''foo'' (say ''foo triggered!''), On ''foo'' (say ''foo again!''),
      On ''bar'' (say ''bar triggered!''), On ''baz'' (say ''baz triggered!''),
      Trigger ''foo'', Trigger ''baz'']"
  let ?out = "[''foo triggered!'', ''foo again!'', ''baz triggered!'']"
  let ?foo = "[say ''foo triggered!'', say ''foo again!'']"
  from main_runtime_foo obtain r where
    r: "run (new_event_system ?evs) ?main [] = Returned r ?out" and rf: "rmap r ''foo'' = Some ?foo"
    by blast
  from main_hana_string obtain hr where
    hr: "hana_run (make_event_system ?evs) ?main [] = Returned hr ?out"
    and hf: "callbacks_of hr ''foo'' = Some ?foo"
    and hs: "hana_trigger_string hr ''foo'' [] = Returned hr [''foo triggered!'', ''foo again!'']"
    by blast
  from rf have d: "''foo'' \<in> dom (rmap r)" by auto
  have "keys hr = ?evs" using hr by (rule reachable_hana)
  then have k: "''foo'' \<in> set (keys hr)" by simp
  have rt: "trigger r ''foo'' [] = Returned r [''foo triggered!'', ''foo again!'']"
    using trigger_known [OF rf, of "[]"] by (simp add: say_def)
  have ht: "hana_trigger hr ''foo'' [] = Returned hr [''foo triggered!'', ''foo again!'']"
    using hana_trigger_known [OF hf, of "[]"] by (simp add: say_def)
  note inst = trigger_leaves_registry_unchanged [of "''foo''" r "[]" hr "''foo''" hr
      "[''foo triggered!'', ''foo again!'']"]
  from inst d have 1: "\<exists>w'. trigger r ''foo'' [] = Returned r w'" by blast
  from inst k have 2: "\<exists>w'. hana_trigger hr ''foo'' [] = Returned hr w'" by blast
  from r rf d 1 rt hr hf k 2 ht hs show ?thesis by blast
qed

end
